theory Spec2Isabelle
  imports Main
begin

section \<open>Window manager (src/components/desktop/WindowManager.tsx)\<close>

text \<open>
  The window manager keeps two pieces of React state: the list \<open>windows\<close> and the counter
  \<open>topZIndex\<close>, which starts at 100. Every operation is a state update; here each one is a
  function from the state before to the state after. The breadcrumbs, messages and metrics
  the operations send to the error reporter do not touch this state and are left out.

  The numbers of a window (position, size, stacking index) are JavaScript numbers. The
  manager only stores and copies the geometry, and only ever adds 1 to the stacking counter,
  so they are modelled as integers. The content of a window is an opaque renderable node:
  a type parameter.

  The field \<open>id\<close> of the source is called \<open>id_win\<close> here, since \<open>id\<close> is the identity
  function of HOL.
\<close>

text \<open>
  The argument of \<open>openWindow\<close> has the type \<open>Omit<WindowState, 'zIndex' | 'isFocused'>\<close>:
  the window record without its last two fields. \<open>WindowState\<close> (types.ts) extends it.
\<close>

record 'c WindowDescriptor =
  id_win :: string
  title :: string
  icon :: string
  x :: int
  y :: int
  width :: int
  height :: int
  minWidth :: int
  minHeight :: int
  isMinimized :: bool
  isMaximized :: bool
  content :: 'c

record 'c WindowState = "'c WindowDescriptor" +
  isFocused :: bool
  zIndex :: int

record 'c WindowManager =
  windows :: "'c WindowState list"
  topZIndex :: int

text \<open>\<open>useState<WindowState[]>([])\<close> and \<open>useState(100)\<close>.\<close>

definition initial :: "'c WindowManager" where
  "initial = \<lparr>windows = [], topZIndex = 100\<rparr>"

text \<open>The object \<open>{ ...window, zIndex: newZ, isFocused: true }\<close> of a newly opened window.\<close>

definition newWindow :: "'c WindowDescriptor \<Rightarrow> int \<Rightarrow> 'c WindowState" where
  "newWindow window newZ =
     WindowDescriptor.extend window (WindowState.fields True newZ)"

definition openWindow :: "'c WindowDescriptor \<Rightarrow> 'c WindowManager \<Rightarrow> 'c WindowManager" where
  "openWindow window s =
     (let currentZ = topZIndex s;
          newZ = currentZ + 1;
          prev = windows s
      in \<lparr>windows =
            (case find (\<lambda>w. id_win w = id_win window) prev of
               Some existing \<Rightarrow>
                 if isMinimized existing
                 then map (\<lambda>w. if id_win w = id_win window
                                then w\<lparr>isMinimized := False, isFocused := True, zIndex := newZ\<rparr>
                                else w\<lparr>isFocused := False\<rparr>) prev
                 else map (\<lambda>w. if id_win w = id_win window
                                then w\<lparr>isFocused := True, zIndex := newZ\<rparr>
                                else w\<lparr>isFocused := False\<rparr>) prev
             | None \<Rightarrow>
                 map (\<lambda>w. w\<lparr>isFocused := False\<rparr>) prev @ [newWindow window newZ]),
          topZIndex = newZ\<rparr>)"

definition closeWindow :: "string \<Rightarrow> 'c WindowManager \<Rightarrow> 'c WindowManager" where
  "closeWindow i s = s\<lparr>windows := filter (\<lambda>w. id_win w \<noteq> i) (windows s)\<rparr>"

definition minimizeWindow :: "string \<Rightarrow> 'c WindowManager \<Rightarrow> 'c WindowManager" where
  "minimizeWindow i s =
     s\<lparr>windows := map (\<lambda>w. if id_win w = i
                            then w\<lparr>isMinimized := True, isFocused := False\<rparr>
                            else w) (windows s)\<rparr>"

definition maximizeWindow :: "string \<Rightarrow> 'c WindowManager \<Rightarrow> 'c WindowManager" where
  "maximizeWindow i s =
     s\<lparr>windows := map (\<lambda>w. if id_win w = i
                            then w\<lparr>isMaximized := \<not> isMaximized w\<rparr>
                            else w) (windows s)\<rparr>"

definition restoreWindow :: "string \<Rightarrow> 'c WindowManager \<Rightarrow> 'c WindowManager" where
  "restoreWindow i s =
     (let currentZ = topZIndex s;
          newZ = currentZ + 1
      in \<lparr>windows =
            map (\<lambda>w. if id_win w = i
                      then w\<lparr>isMinimized := False, isFocused := True, zIndex := newZ\<rparr>
                      else w\<lparr>isFocused := False\<rparr>) (windows s),
          topZIndex = newZ\<rparr>)"

definition focusWindow :: "string \<Rightarrow> 'c WindowManager \<Rightarrow> 'c WindowManager" where
  "focusWindow i s =
     (let currentZ = topZIndex s;
          newZ = currentZ + 1
      in \<lparr>windows =
            map (\<lambda>w. if id_win w = i
                      then w\<lparr>isFocused := True, zIndex := newZ\<rparr>
                      else w\<lparr>isFocused := False\<rparr>) (windows s),
          topZIndex = newZ\<rparr>)"

definition updateWindowPosition ::
  "string \<Rightarrow> int \<Rightarrow> int \<Rightarrow> 'c WindowManager \<Rightarrow> 'c WindowManager" where
  "updateWindowPosition i x' y' s =
     s\<lparr>windows := map (\<lambda>w. if id_win w = i then w\<lparr>x := x', y := y'\<rparr> else w) (windows s)\<rparr>"

definition updateWindowSize ::
  "string \<Rightarrow> int \<Rightarrow> int \<Rightarrow> 'c WindowManager \<Rightarrow> 'c WindowManager" where
  "updateWindowSize i width' height' s =
     s\<lparr>windows := map (\<lambda>w. if id_win w = i then w\<lparr>width := width', height := height'\<rparr> else w)
                     (windows s)\<rparr>"

text \<open>
  The operations the context hands to its consumers, as one datatype. Each call queues a
  state update, and \<open>run ups\<close> is the state after the updates \<open>ups\<close>, in the order in
  which they are applied, starting from no window. When the update of a call is applied
  before the next call is made, as it is when each call is made by a click of its own, this
  is the order of the calls.
\<close>

datatype 'c operation =
    Open "'c WindowDescriptor"
  | Close string
  | Minimize string
  | Maximize string
  | Restore string
  | Focus string
  | Move string int int
  | Resize string int int

fun perform :: "'c WindowManager \<Rightarrow> 'c operation \<Rightarrow> 'c WindowManager" where
  "perform s (Open window) = openWindow window s"
| "perform s (Close i) = closeWindow i s"
| "perform s (Minimize i) = minimizeWindow i s"
| "perform s (Maximize i) = maximizeWindow i s"
| "perform s (Restore i) = restoreWindow i s"
| "perform s (Focus i) = focusWindow i s"
| "perform s (Move i x' y') = updateWindowPosition i x' y' s"
| "perform s (Resize i width' height') = updateWindowSize i width' height' s"

definition run :: "'c operation list \<Rightarrow> 'c WindowManager" where
  "run ops = foldl perform initial ops"

text \<open>The number of records with \<open>isFocused = true\<close>.\<close>

definition focusedCount :: "'c WindowManager \<Rightarrow> nat" where
  "focusedCount s = length (filter isFocused (windows s))"

text \<open>The ids of the open windows, in the order of the list.\<close>

definition ids :: "'c WindowManager \<Rightarrow> string list" where
  "ids s = map id_win (windows s)"


text \<open>
  The calls the desktop makes. The taskbar (Taskbar.tsx, \<open>handleWindowClick\<close>) sends a click
  on a minimized window to \<open>restoreWindow\<close> and only a click on a visible one to
  \<open>focusWindow\<close>; the launchers open their windows with \<open>isMinimized: false\<close>. A call is
  \<open>permitted\<close> in a state when it keeps to that: \<open>focusWindow\<close> is not called on the id of a
  minimized window, and a window that is not open yet is not opened minimized.
\<close>

definition handleWindowClick :: "string \<Rightarrow> bool \<Rightarrow> 'c WindowManager \<Rightarrow> 'c WindowManager" where
  "handleWindowClick i minimized s = (if minimized then restoreWindow i s else focusWindow i s)"

fun permitted :: "'c WindowManager \<Rightarrow> 'c operation \<Rightarrow> bool" where
  "permitted s (Open window) =
     (find (\<lambda>w. id_win w = id_win window) (windows s) = None \<longrightarrow> \<not> isMinimized window)"
| "permitted s (Focus i) = list_all (\<lambda>w. id_win w = i \<longrightarrow> \<not> isMinimized w) (windows s)"
| "permitted s _ = True"

fun permittedRun :: "'c WindowManager \<Rightarrow> 'c operation list \<Rightarrow> bool" where
  "permittedRun s [] = True"
| "permittedRun s (op # ops) = (permitted s op \<and> permittedRun (perform s op) ops)"

text \<open>
  Several calls before one render. \<open>closeWindow\<close>, \<open>minimizeWindow\<close>, \<open>maximizeWindow\<close>,
  \<open>updateWindowPosition\<close> and \<open>updateWindowSize\<close> call \<open>setWindows\<close> directly. \<open>openWindow\<close>,
  \<open>restoreWindow\<close> and \<open>focusWindow\<close> call it from inside the updater they pass to
  \<open>setTopZIndex\<close>; when React runs that updater only as it renders, their updates of the
  windows are applied after the direct ones queued before that render. \<open>applied\<close> is the
  order of application then, for the calls made between two renders, and \<open>runBatches\<close> the
  state after a sequence of such batches of calls.
\<close>

fun direct :: "'c operation \<Rightarrow> bool" where
  "direct (Open window) = False"
| "direct (Restore i) = False"
| "direct (Focus i) = False"
| "direct call = True"

definition applied :: "'c operation list \<Rightarrow> 'c operation list" where
  "applied calls = filter direct calls @ filter (\<lambda>call. \<not> direct call) calls"

definition runBatches :: "'c operation list list \<Rightarrow> 'c WindowManager" where
  "runBatches batches = run (concat (map applied batches))"

text \<open>No stacking index is above the counter.\<close>

definition zBounded :: "'c WindowManager \<Rightarrow> bool" where
  "zBounded s = list_all (\<lambda>w. zIndex w \<le> topZIndex s) (windows s)"

text \<open>A window descriptor as the desktop's launchers build them, for the examples below.\<close>

definition exampleWindow :: "string \<Rightarrow> bool \<Rightarrow> unit WindowDescriptor" where
  "exampleWindow i m =
     \<lparr>id_win = i, title = ''Window'', icon = ''W'', x = 200, y = 80, width = 500, height = 550,
      minWidth = 350, minHeight = 400, isMinimized = m, isMaximized = False, content = ()\<rparr>"


section \<open>Folder view: double-click detection (src/components/desktop/apps/FolderView.tsx)\<close>

text \<open>
  \<open>handleItemClick\<close> tells a double click from a single one with a counter, the id of the
  item clicked last and a timer of 250 ms. The handler does not read the clock: it arms the
  timer, and the browser runs the timer's callback once 250 ms have passed. The model makes
  the clock explicit. Time is counted in the units of \<open>setTimeout\<close>'s delay; \<open>pending\<close>
  is the browser's queue of armed timers of this view (handle, due time, the item the
  callback closed over), in the order they were armed; \<open>clickTimeout\<close> is the ref holding
  the handle of the timer armed last, which stays there after the timer has run or was
  cleared. \<open>effects\<close> records what a user can observe: each \<open>setSelectedId\<close>, each
  call of an item's \<open>onOpen\<close>, and each exception that leaves a handler.

  The fields \<open>id\<close> and \<open>icon\<close> of \<open>FolderItem\<close> carry the suffix \<open>_item\<close>: the first
  is the identity function of HOL, the second a field of the window record above.
\<close>

datatype item_type = Folder | File | App

datatype item_icon = FolderIcon | DocumentIcon | ChatIcon

text \<open>An \<open>onOpen\<close> callback is an opaque function of the caller; all that matters is which one ran.\<close>

datatype callback = Callback nat

record FolderItem =
  id_item :: string
  name :: string
  type :: item_type
  icon_item :: "item_icon option"
  onOpen :: "callback option"

text \<open>
  The view calls \<open>Sentry.metrics.increment\<close> and \<open>Sentry.metrics.gauge\<close> directly, not
  through the wrapper of lib/metrics.ts, which first tests that the function exists. Which
  functions the installed reporter has is not fixed by the sources: it is a parameter, and a
  call of a function that is not there throws a \<open>TypeError\<close>.
\<close>

record SentryMetrics =
  increment :: bool
  gauge :: bool

datatype effect = Selected string | Opened callback | Threw

record FolderView =
  selectedId :: "string option"
  clickTimeout :: "nat option"
  clickCount :: nat
  lastClickedId :: "string option"
  pending :: "(nat \<times> nat \<times> FolderItem) list"
  nextHandle :: nat
  effects :: "effect list"

text \<open>The state of a view that was just mounted; timer handles are positive numbers.\<close>

definition mounted :: FolderView where
  "mounted = \<lparr>selectedId = None, clickTimeout = None, clickCount = 0, lastClickedId = None,
              pending = [], nextHandle = 1, effects = []\<rparr>"

text \<open>
  The effect that runs when the view is mounted reports the folder with \<open>increment\<close> and
  \<open>gauge\<close>. \<open>None\<close>: the effect throws, and the error goes to React instead of a view
  that can be clicked.
\<close>

definition mount :: "SentryMetrics \<Rightarrow> FolderView option" where
  "mount sentry = (if increment sentry \<and> gauge sentry then Some mounted else None)"

text \<open>\<open>if (clickTimeoutRef.current) clearTimeout(clickTimeoutRef.current)\<close>.\<close>

definition clearClickTimeout :: "FolderView \<Rightarrow> FolderView" where
  "clearClickTimeout v =
     (case clickTimeout v of
        None \<Rightarrow> v
      | Some h \<Rightarrow> v\<lparr>pending := filter (\<lambda>(h', due, item). h' \<noteq> h) (pending v)\<rparr>)"

text \<open>
  The callback handed to \<open>setTimeout\<close>, for the item it closed over. When the counter is 1
  it reports the selection with \<open>increment\<close> before it selects: if that call throws, the
  item is not selected and the counter is not reset.
\<close>

definition timeoutCallback :: "SentryMetrics \<Rightarrow> FolderItem \<Rightarrow> FolderView \<Rightarrow> FolderView" where
  "timeoutCallback sentry item v =
     (if clickCount v = 1
      then (if increment sentry
            then v\<lparr>selectedId := Some (id_item item),
                   effects := effects v @ [Selected (id_item item)],
                   clickCount := 0\<rparr>
            else v\<lparr>effects := effects v @ [Threw]\<rparr>)
      else v\<lparr>clickCount := 0\<rparr>)"

text \<open>
  The click handler. On the second click it clears the timer, resets the counter and
  reports the opening with \<open>increment\<close> before it selects the item and calls \<open>onOpen\<close>: if
  that call throws, neither happens.
\<close>

definition handleItemClick ::
  "SentryMetrics \<Rightarrow> nat \<Rightarrow> FolderItem \<Rightarrow> FolderView \<Rightarrow> FolderView" where
  "handleItemClick sentry now item v =
     (let v1 = (if lastClickedId v \<noteq> Some (id_item item)
                then clearClickTimeout (v\<lparr>clickCount := 0\<rparr>)
                else v);
          v2 = v1\<lparr>lastClickedId := Some (id_item item)\<rparr>;
          v3 = v2\<lparr>clickCount := clickCount v2 + 1\<rparr>
      in if clickCount v3 = 1
         then v3\<lparr>clickTimeout := Some (nextHandle v3),
                 pending := pending v3 @ [(nextHandle v3, now + 250, item)],
                 nextHandle := nextHandle v3 + 1\<rparr>
         else if clickCount v3 = 2
         then (let v4 = (clearClickTimeout v3)\<lparr>clickCount := 0\<rparr>
               in if \<not> increment sentry
                  then v4\<lparr>effects := effects v4 @ [Threw]\<rparr>
                  else (let v5 = v4\<lparr>selectedId := Some (id_item item),
                                    effects := effects v4 @ [Selected (id_item item)]\<rparr>
                        in case onOpen item of
                             None \<Rightarrow> v5
                           | Some f \<Rightarrow> v5\<lparr>effects := effects v5 @ [Opened f]\<rparr>))
         else v3)"

text \<open>
  The browser's part. When the clock reaches \<open>t\<close>, the timers due by then run, in the order
  they were armed, and leave the queue; a timer due at \<open>t\<close> runs before a click that
  happens at \<open>t\<close>. The callback does not touch the queue, so the due timers can be taken
  out first.
\<close>

definition advance :: "SentryMetrics \<Rightarrow> nat \<Rightarrow> FolderView \<Rightarrow> FolderView" where
  "advance sentry t v =
     foldl (\<lambda>v' (h, due, item). timeoutCallback sentry item v')
       (v\<lparr>pending := filter (\<lambda>(h, due, item). t < due) (pending v)\<rparr>)
       (filter (\<lambda>(h, due, item). due \<le> t) (pending v))"

text \<open>A click on \<open>item\<close> at time \<open>t\<close>.\<close>

definition click :: "SentryMetrics \<Rightarrow> nat \<Rightarrow> FolderItem \<Rightarrow> FolderView \<Rightarrow> FolderView" where
  "click sentry t item v = handleItemClick sentry t item (advance sentry t v)"

text \<open>No click is being classified: the counter is 0 and no timer is armed.\<close>

definition idle :: "FolderView \<Rightarrow> bool" where
  "idle v = (clickCount v = 0 \<and> pending v = [])"





section \<open>Chat endpoint (the route handler \<open>POST\<close> of /api/chat)\<close>

subsection \<open>Request bodies\<close>

text \<open>
  \<open>request.json()\<close> hands the handler whatever JSON value the client sent; the type
  annotation \<open>{ messages: MessageInput[] }\<close> is a cast and checks nothing. So the model works
  on JSON values. The only things the handler does with a number are to test it and to print
  it into the prompt: a number is kept as the text JavaScript prints for it (\<open>''0''\<close> for
  zero). \<open>None\<close> of type \<open>json option\<close> stands for \<open>undefined\<close>.
\<close>

datatype json =
    JNull
  | JBool bool
  | JNum string
  | JStr string
  | JArr "json list"
  | JObj "(string \<times> json) list"

datatype exn = TypeError | SyntaxError

text \<open>
  \<open>v.key\<close>, for the keys the handler reads (\<open>messages\<close>, \<open>role\<close>, \<open>content\<close>; none of them
  is a built-in property of a string, an array or a number). Reading a property of
  \<open>null\<close> throws. \<open>JSON.parse\<close> keeps the last of several equal keys.
\<close>

fun property :: "json \<Rightarrow> string \<Rightarrow> exn + json option" where
  "property JNull key = Inl TypeError"
| "property (JObj kvs) key = Inr (map_of (rev kvs) key)"
| "property v key = Inr None"

fun truthy :: "json option \<Rightarrow> bool" where
  "truthy None = False"
| "truthy (Some JNull) = False"
| "truthy (Some (JBool b)) = b"
| "truthy (Some (JNum n)) = (n \<noteq> ''0'')"
| "truthy (Some (JStr s)) = (s \<noteq> [])"
| "truthy (Some (JArr xs)) = True"
| "truthy (Some (JObj kvs)) = True"

fun isArray :: "json option \<Rightarrow> bool" where
  "isArray (Some (JArr xs)) = True"
| "isArray v = False"

text \<open>The elements of a value that \<open>Array.isArray\<close> accepted.\<close>

fun elements :: "json option \<Rightarrow> json list" where
  "elements (Some (JArr xs)) = xs"
| "elements v = []"

text \<open>
  What a template literal prints for a value. An array prints its elements separated by
  commas, \<open>null\<close> elements as nothing. A plain object prints as \<open>[object Object]\<close>, unless it
  has a key \<open>toString\<close> of its own: that value is not a function, \<open>valueOf\<close> does not
  return a primitive either, and the conversion throws.
\<close>

fun toString :: "json \<Rightarrow> exn + string"
  and joinElements :: "json list \<Rightarrow> exn + string" where
  "toString JNull = Inr ''null''"
| "toString (JBool b) = Inr (if b then ''true'' else ''false'')"
| "toString (JNum n) = Inr n"
| "toString (JStr s) = Inr s"
| "toString (JArr xs) = joinElements xs"
| "toString (JObj kvs) =
     (if ''toString'' \<in> fst ` set kvs then Inl TypeError else Inr ''[object Object]'')"
| "joinElements [] = Inr []"
| "joinElements (v # vs) =
     (case (if v = JNull then Inr [] else toString v) of
        Inl e \<Rightarrow> Inl e
      | Inr s \<Rightarrow>
          if vs = [] then Inr s
          else (case joinElements vs of Inl e \<Rightarrow> Inl e | Inr r \<Rightarrow> Inr (s @ '','' @ r)))"

fun toStringOrUndefined :: "json option \<Rightarrow> exn + string" where
  "toStringOrUndefined None = Inr ''undefined''"
| "toStringOrUndefined (Some v) = toString v"

text \<open>\<open>lines.join(sep)\<close> on an array of strings.\<close>

fun join :: "string \<Rightarrow> string list \<Rightarrow> string" where
  "join sep [] = []"
| "join sep [l] = l"
| "join sep (l # ls) = l @ sep @ join sep ls"

subsection \<open>Validation and the prompt\<close>

definition SYSTEM_PROMPT :: string where
  "SYSTEM_PROMPT =
      ''You are a helpful personal assistant designed to help with general research, questions, and tasks.\<newline>'' @
      ''\<newline>'' @
      ''Your role is to:\<newline>'' @
      ''- Answer questions on any topic accurately and thoroughly\<newline>'' @
      ''- Help with research by searching the web for current information\<newline>'' @
      ''- Assist with writing, editing, and brainstorming\<newline>'' @
      ''- Provide explanations and summaries of complex topics\<newline>'' @
      ''- Help solve problems and think through decisions\<newline>'' @
      ''\<newline>'' @
      ''Guidelines:\<newline>'' @
      ''- Be friendly, clear, and conversational\<newline>'' @
      ''- Use web search when you need current information, facts you're unsure about, or real-time data\<newline>'' @
      ''- Keep responses concise but complete - expand when the topic warrants depth\<newline>'' @
      ''- Use markdown formatting when it helps readability (bullet points, code blocks, etc.)\<newline>'' @
      ''- Be honest when you don't know something and offer to search for answers''"

text \<open>\<open>messages.filter(m => m.role === 'user')\<close>: it throws at the first \<open>null\<close> element.\<close>

fun userMessages :: "json list \<Rightarrow> exn + json list" where
  "userMessages [] = Inr []"
| "userMessages (m # ms) =
     (case property m ''role'' of
        Inl e \<Rightarrow> Inl e
      | Inr role \<Rightarrow>
          (case userMessages ms of
             Inl e \<Rightarrow> Inl e
           | Inr us \<Rightarrow> Inr (if role = Some (JStr ''user'') then m # us else us)))"

text \<open>
  \<open>lastUserMessage.content.length\<close>, read for the log entry: only whether it throws
  matters, and it does when the content is missing or \<open>null\<close>.
\<close>

definition contentLength :: "json \<Rightarrow> exn + unit" where
  "contentLength m =
     (case property m ''content'' of
        Inl e \<Rightarrow> Inl e
      | Inr None \<Rightarrow> Inl TypeError
      | Inr (Some JNull) \<Rightarrow> Inl TypeError
      | Inr (Some v) \<Rightarrow> Inr ())"

text \<open>One line of the transcript: \<open>`${m.role === 'user' ? 'User' : 'Assistant'}: ${m.content}`\<close>.\<close>

definition transcriptLine :: "json \<Rightarrow> exn + string" where
  "transcriptLine m =
     (case property m ''role'' of
        Inl e \<Rightarrow> Inl e
      | Inr role \<Rightarrow>
          (case property m ''content'' of
             Inl e \<Rightarrow> Inl e
           | Inr c \<Rightarrow>
               (case toStringOrUndefined c of
                  Inl e \<Rightarrow> Inl e
                | Inr text \<Rightarrow>
                    Inr ((if role = Some (JStr ''user'') then ''User'' else ''Assistant'') @
                         '': '' @ text))))"

fun transcriptLines :: "json list \<Rightarrow> exn + string list" where
  "transcriptLines [] = Inr []"
| "transcriptLines (m # ms) =
     (case transcriptLine m of
        Inl e \<Rightarrow> Inl e
      | Inr l \<Rightarrow> (case transcriptLines ms of Inl e \<Rightarrow> Inl e | Inr ls \<Rightarrow> Inr (l # ls)))"

text \<open>\<open>messages.slice(0, -1).map(...).join('\n\n')\<close>.\<close>

definition conversationContext :: "json list \<Rightarrow> exn + string" where
  "conversationContext messages =
     (case transcriptLines (butlast messages) of
        Inl e \<Rightarrow> Inl e
      | Inr ls \<Rightarrow> Inr (join ''\<newline>\<newline>'' ls))"

definition fullPrompt :: "json list \<Rightarrow> json \<Rightarrow> exn + string" where
  "fullPrompt messages lastUserMessage =
     (case conversationContext messages of
        Inl e \<Rightarrow> Inl e
      | Inr context \<Rightarrow>
          (case property lastUserMessage ''content'' of
             Inl e \<Rightarrow> Inl e
           | Inr c \<Rightarrow>
               (case toStringOrUndefined c of
                  Inl e \<Rightarrow> Inl e
                | Inr text \<Rightarrow>
                    Inr (if context \<noteq> []
                         then SYSTEM_PROMPT @ ''\<newline>\<newline>Previous conversation:\<newline>'' @
                              context @ ''\<newline>\<newline>User: '' @ text
                         else SYSTEM_PROMPT @ ''\<newline>\<newline>User: '' @ text))))"

subsection \<open>The upstream runtime and the stream\<close>

text \<open>
  The arguments of the call of \<open>query\<close>. The option \<open>cwd\<close> is the server's working
  directory, which is not part of the request, and is left out.
\<close>

record queryArgs =
  prompt :: string
  maxTurns :: nat
  toolsPreset :: string
  permissionMode :: string
  allowDangerouslySkipPermissions :: bool
  includePartialMessages :: bool

text \<open>
  The messages of the agent runtime, as far as the loop looks into them: the type of a
  message, the delta of a stream event, the blocks of an assistant message, the tool and the
  elapsed seconds of a progress report (a number that is only copied: an integer here), the
  subtype of a result.
\<close>

datatype delta = TextDelta string | OtherDelta

datatype stream_event = ContentBlockDelta "delta option" | OtherEvent

datatype block = ToolUse string | OtherBlock

datatype sdk_message =
    StreamEvent stream_event
  | Assistant "block list option"
  | ToolProgress string int
  | Result string
  | OtherMessage

text \<open>
  What the handler writes to the stream. \<open>Event e\<close> is the frame \<open>data: \<close> followed by
  \<open>JSON.stringify\<close> of the object \<open>e\<close> stands for and an empty line; \<open>Sentinel\<close> is the
  literal frame \<open>data: [DONE]\<close>.
\<close>

datatype sse_event =
    Text_delta string
  | Tool_start string
  | Tool_progress string int
  | Done
  | Error string

datatype frame = Event sse_event | Sentinel

text \<open>The frames one message of the runtime produces: the body of the \<open>for await\<close> loop.\<close>

fun toolStarts :: "block list \<Rightarrow> frame list" where
  "toolStarts [] = []"
| "toolStarts (ToolUse tool # bs) = Event (Tool_start tool) # toolStarts bs"
| "toolStarts (OtherBlock # bs) = toolStarts bs"

fun forward :: "sdk_message \<Rightarrow> frame list" where
  "forward (StreamEvent (ContentBlockDelta (Some (TextDelta text)))) = [Event (Text_delta text)]"
| "forward (StreamEvent e) = []"
| "forward (Assistant (Some blocks)) = toolStarts blocks"
| "forward (Assistant None) = []"
| "forward (ToolProgress tool elapsed) = [Event (Tool_progress tool elapsed)]"
| "forward (Result subtype) =
     (if subtype = ''success'' then [Event Done]
      else [Event (Error ''Query did not complete successfully'')])"
| "forward OtherMessage = []"

text \<open>
  One run of the runtime, as the loop sees it: the next message arrives, or an exception is
  thrown while the loop waits for it or handles it; the list ends when the runtime is done.
  \<open>start\<close> is the \<open>start\<close> callback of the \<open>ReadableStream\<close>: the loop, the sentinel after
  it, and the \<open>catch\<close> block.
\<close>

datatype upstream = Yield sdk_message | Throw

fun start :: "upstream list \<Rightarrow> frame list" where
  "start [] = [Sentinel]"
| "start (Throw # rest) = [Event (Error ''Stream error occurred'')]"
| "start (Yield message # rest) = forward message @ start rest"

subsection \<open>The handler\<close>

datatype response = JsonResponse nat json | StreamResponse "frame list"

definition badRequest :: "string \<Rightarrow> response" where
  "badRequest message = JsonResponse 400 (JObj [(''error'', JStr message)])"

text \<open>The outer \<open>catch\<close> block.\<close>

definition serverError :: response where
  "serverError =
     JsonResponse 500
       (JObj [(''error'', JStr ''Failed to process chat request. Check server logs for details.'')])"

text \<open>The argument of \<open>query\<close>: the prompt and the fixed options.\<close>

definition queryArguments :: "string \<Rightarrow> queryArgs" where
  "queryArguments p =
     \<lparr>prompt = p, maxTurns = 10, toolsPreset = ''claude_code'',
      permissionMode = ''bypassPermissions'', allowDangerouslySkipPermissions = True,
      includePartialMessages = True\<rparr>"

text \<open>
  The handler up to the point where it creates the stream: an error response, or the
  arguments it will call the runtime with. The request is \<open>None\<close> when its body is not
  JSON and \<open>request.json()\<close> throws.
\<close>

definition prepare :: "json option \<Rightarrow> response + queryArgs" where
  "prepare request =
     (case request of
        None \<Rightarrow> Inl serverError
      | Some body \<Rightarrow>
          (case property body ''messages'' of
             Inl e \<Rightarrow> Inl serverError
           | Inr messages \<Rightarrow>
               if \<not> truthy messages \<or> \<not> isArray messages
               then Inl (badRequest ''Messages array is required'')
               else
                 (case userMessages (elements messages) of
                    Inl e \<Rightarrow> Inl serverError
                  | Inr users \<Rightarrow>
                      if users = [] then Inl (badRequest ''No user message found'')
                      else
                        (let lastUserMessage = last users
                         in case contentLength lastUserMessage of
                              Inl e \<Rightarrow> Inl serverError
                            | Inr u \<Rightarrow>
                                (case fullPrompt (elements messages) lastUserMessage of
                                   Inl e \<Rightarrow> Inl serverError
                                 | Inr p \<Rightarrow> Inr (queryArguments p))))))"

text \<open>The handler, given the runtime as the run it makes for each call.\<close>

definition POST :: "(queryArgs \<Rightarrow> upstream list) \<Rightarrow> json option \<Rightarrow> response" where
  "POST query request =
     (case prepare request of
        Inl r \<Rightarrow> r
      | Inr args \<Rightarrow> StreamResponse (start (query args)))"


subsection \<open>Reading the messages of a request\<close>

text \<open>
  What the handler reads in a message, as functions of the JSON value: whether its role is
  the string \<open>user\<close>; whether it has a content other than \<open>null\<close>; what the template
  literal prints for its content (\<open>None\<close> when reading or printing it throws; a missing
  content prints as \<open>undefined\<close>); its entry in the transcript. \<open>transcript\<close> is the
  conversation so far, one entry per message.
\<close>

definition isUser :: "json \<Rightarrow> bool" where
  "isUser m = (property m ''role'' = Inr (Some (JStr ''user'')))"

definition hasContent :: "json \<Rightarrow> bool" where
  "hasContent m =
     (case property m ''content'' of
        Inl e \<Rightarrow> False
      | Inr None \<Rightarrow> False
      | Inr (Some v) \<Rightarrow> v \<noteq> JNull)"

definition printed :: "json \<Rightarrow> string option" where
  "printed m =
     (case property m ''content'' of
        Inl e \<Rightarrow> None
      | Inr c \<Rightarrow> (case toStringOrUndefined c of Inl e \<Rightarrow> None | Inr text \<Rightarrow> Some text))"

text \<open>
  A value can be printed when no object in it, looked for through arrays, has a key
  \<open>toString\<close> of its own.
\<close>

fun printable :: "json \<Rightarrow> bool" where
  "printable (JArr vs) = (\<forall>v\<in>set vs. printable v)"
| "printable (JObj kvs) = (''toString'' \<notin> fst ` set kvs)"
| "printable v = True"

definition entry :: "json \<Rightarrow> string" where
  "entry m =
     (if isUser m then ''User'' else ''Assistant'') @ '': '' @
     (case printed m of None \<Rightarrow> [] | Some text \<Rightarrow> text)"

definition transcript :: "json list \<Rightarrow> string" where
  "transcript ms = join ''\<newline>\<newline>'' (map entry ms)"

text \<open>
  A message as \<open>MessageInput\<close> declares it, a role and a text, as the JSON object a client
  sends for it.
\<close>

definition messageInput :: "string \<times> string \<Rightarrow> json" where
  "messageInput m = JObj [(''role'', JStr (fst m)), (''content'', JStr (snd m))]"


text \<open>The request \<open>{messages: [{role: "user", content: "hello"}]}\<close>.\<close>

definition helloRequest :: "json option" where
  "helloRequest = Some (JObj [(''messages'', JArr [messageInput (''user'', ''hello'')])])"


section \<open>Properties of the window manager\<close>

text \<open>
  Each call of an operation is taken as one state update, applied in the order of the calls;
  \<open>run ops\<close> is the state after the calls \<open>ops\<close>, starting from no window.
\<close>

subsection \<open>Ids stay distinct\<close>

lemma find_SomeD: "find P xs = Some e \<Longrightarrow> e \<in> set xs \<and> P e"
  by (induction xs) (auto split: if_splits)

lemma ids_openWindow:
  "ids (openWindow d s) =
     (if id_win d \<in> set (ids s) then ids s else ids s @ [id_win d])"
proof (cases "find (\<lambda>w. id_win w = id_win d) (windows s)")
  case None
  then have "id_win d \<notin> set (ids s)"
    by (auto simp: find_None_iff ids_def)
  with None show ?thesis
    by (simp add: openWindow_def ids_def Let_def newWindow_def WindowDescriptor.extend_def comp_def)
next
  case (Some e)
  then have "id_win d \<in> set (ids s)"
    using find_SomeD [OF Some] image_eqI [of "id_win d" id_win e "set (windows s)"]
    by (simp add: ids_def)
  with Some show ?thesis
    by (simp add: openWindow_def ids_def Let_def comp_def if_distrib cong: if_cong)
qed

lemma ids_closeWindow: "ids (closeWindow i s) = filter (\<lambda>j. j \<noteq> i) (ids s)"
  by (simp add: closeWindow_def ids_def filter_map comp_def)

lemma ids_others:
  "ids (minimizeWindow i s) = ids s"
  "ids (maximizeWindow i s) = ids s"
  "ids (restoreWindow i s) = ids s"
  "ids (focusWindow i s) = ids s"
  "ids (updateWindowPosition i a b s) = ids s"
  "ids (updateWindowSize i a b s) = ids s"
  by (simp_all add: minimizeWindow_def maximizeWindow_def restoreWindow_def focusWindow_def
      updateWindowPosition_def updateWindowSize_def ids_def Let_def comp_def if_distrib cong: if_cong)

lemma distinct_perform: "distinct (ids s) \<Longrightarrow> distinct (ids (perform s op))"
  by (cases op) (simp_all add: ids_openWindow ids_closeWindow ids_others)

lemma distinct_foldl: "distinct (ids s) \<Longrightarrow> distinct (ids (foldl perform s ops))"
  by (induction ops arbitrary: s) (simp_all add: distinct_perform)

lemma distinct_run: "distinct (ids (run ops))"
  unfolding run_def by (rule distinct_foldl) (simp add: ids_def initial_def)


lemma same_id_same_window:
  assumes "distinct (ids s)" and "a \<in> set (windows s)" and "b \<in> set (windows s)"
    and "id_win a = id_win b"
  shows "a = b"
  using assms by (auto simp: ids_def distinct_map inj_on_def)

lemma run_snoc: "run (ops @ [op]) = perform (run ops) op"
  by (simp add: run_def)

lemma list_all_map_if:
  "list_all P (map (\<lambda>w. if c w then f w else g w) ws) \<longleftrightarrow>
   (\<forall>w\<in>set ws. if c w then P (f w) else P (g w))"
  by (induction ws) simp_all

lemma map_untouched:
  "i \<notin> id_win ` set ws \<Longrightarrow> map (\<lambda>w. if id_win w = i then f w else g w) ws = map g ws"
  by (induction ws) auto

subsection \<open>A single focused window\<close>

lemma length_filter_key:
  "distinct (map g ws) \<Longrightarrow> length (filter (\<lambda>w. g w = i) ws) = (if i \<in> g ` set ws then 1 else 0)"
proof (induction ws)
  case Nil
  show ?case by simp
next
  case (Cons w ws)
  then show ?case by (cases "g w = i") (simp_all add: image_iff)
qed

lemma focused_retarget:
  assumes "\<And>w. isFocused (f w)" and "distinct (map id_win ws)"
  shows "length (filter isFocused
           (map (\<lambda>w. if id_win w = i then f w else w\<lparr>isFocused := False\<rparr>) ws)) =
         (if i \<in> id_win ` set ws then 1 else 0)"
proof -
  have "isFocused \<circ> (\<lambda>w. if id_win w = i then f w else w\<lparr>isFocused := False\<rparr>) =
        (\<lambda>w. id_win w = i)"
    by (simp add: fun_eq_iff assms(1))
  then have "length (filter isFocused
           (map (\<lambda>w. if id_win w = i then f w else w\<lparr>isFocused := False\<rparr>) ws)) =
        length (filter (\<lambda>w. id_win w = i) ws)"
    by (simp only: length_filter_map)
  then show ?thesis
    using length_filter_key [OF assms(2), of i] by simp
qed

lemma focused_cleared:
  "filter isFocused (map (\<lambda>w. w\<lparr>isFocused := False\<rparr>) ws) = []"
  by (induction ws) simp_all

lemma focusedCount_openWindow:
  assumes "distinct (ids s)"
  shows "focusedCount (openWindow d s) = 1"
proof (cases "find (\<lambda>w. id_win w = id_win d) (windows s)")
  case None
  then show ?thesis
    by (simp add: focusedCount_def openWindow_def Let_def focused_cleared newWindow_def
        WindowDescriptor.extend_def WindowState.fields_def)
next
  case (Some e)
  have mem: "id_win d \<in> id_win ` set (windows s)"
    using find_SomeD [OF Some] image_eqI [of "id_win d" id_win e "set (windows s)"] by simp
  from assms have dist: "distinct (map id_win (windows s))"
    by (simp add: ids_def)
  show ?thesis
  proof (cases "isMinimized e")
    case True
    with Some have "windows (openWindow d s) =
        map (\<lambda>w. if id_win w = id_win d
                  then w\<lparr>isMinimized := False, isFocused := True, zIndex := topZIndex s + 1\<rparr>
                  else w\<lparr>isFocused := False\<rparr>) (windows s)"
      by (simp add: openWindow_def Let_def)
    moreover have "length (filter isFocused \<dots>) = (if id_win d \<in> id_win ` set (windows s) then 1 else 0)"
      by (rule focused_retarget) (simp_all add: dist)
    ultimately show ?thesis
      unfolding focusedCount_def by (simp only: mem if_True)
  next
    case False
    with Some have "windows (openWindow d s) =
        map (\<lambda>w. if id_win w = id_win d
                  then w\<lparr>isFocused := True, zIndex := topZIndex s + 1\<rparr>
                  else w\<lparr>isFocused := False\<rparr>) (windows s)"
      by (simp add: openWindow_def Let_def)
    moreover have "length (filter isFocused \<dots>) = (if id_win d \<in> id_win ` set (windows s) then 1 else 0)"
      by (rule focused_retarget) (simp_all add: dist)
    ultimately show ?thesis
      unfolding focusedCount_def by (simp only: mem if_True)
  qed
qed

lemma focusedCount_focusWindow:
  assumes "distinct (ids s)"
  shows "focusedCount (focusWindow i s) = (if i \<in> set (ids s) then 1 else 0)"
proof -
  from assms have dist: "distinct (map id_win (windows s))"
    by (simp add: ids_def)
  have "windows (focusWindow i s) =
        map (\<lambda>w. if id_win w = i
                  then w\<lparr>isFocused := True, zIndex := topZIndex s + 1\<rparr>
                  else w\<lparr>isFocused := False\<rparr>) (windows s)"
    by (simp add: focusWindow_def Let_def)
  moreover have "length (filter isFocused \<dots>) = (if i \<in> id_win ` set (windows s) then 1 else 0)"
    by (rule focused_retarget) (simp_all add: dist)
  ultimately show ?thesis
    unfolding focusedCount_def ids_def by (simp only: set_map)
qed

lemma focusedCount_restoreWindow:
  assumes "distinct (ids s)"
  shows "focusedCount (restoreWindow i s) = (if i \<in> set (ids s) then 1 else 0)"
proof -
  from assms have dist: "distinct (map id_win (windows s))"
    by (simp add: ids_def)
  have "windows (restoreWindow i s) =
        map (\<lambda>w. if id_win w = i
                  then w\<lparr>isMinimized := False, isFocused := True, zIndex := topZIndex s + 1\<rparr>
                  else w\<lparr>isFocused := False\<rparr>) (windows s)"
    by (simp add: restoreWindow_def Let_def)
  moreover have "length (filter isFocused \<dots>) = (if i \<in> id_win ` set (windows s) then 1 else 0)"
    by (rule focused_retarget) (simp_all add: dist)
  ultimately show ?thesis
    unfolding focusedCount_def ids_def by (simp only: set_map)
qed

lemma focusedCount_closeWindow: "focusedCount (closeWindow i s) \<le> focusedCount s"
proof -
  have "length (filter isFocused (filter P ws)) \<le> length (filter isFocused ws)"
    for P and ws :: "'a WindowState list"
    by (induction ws) simp_all
  then show ?thesis
    by (simp add: focusedCount_def closeWindow_def)
qed

lemma focusedCount_minimizeWindow: "focusedCount (minimizeWindow i s) \<le> focusedCount s"
proof -
  have "length (filter isFocused
          (map (\<lambda>w. if id_win w = i then w\<lparr>isMinimized := True, isFocused := False\<rparr> else w) ws))
        \<le> length (filter isFocused ws)"
    for ws :: "'a WindowState list"
    by (induction ws) simp_all
  then show ?thesis
    by (simp add: focusedCount_def minimizeWindow_def)
qed

lemma focusedCount_unchanged:
  "focusedCount (maximizeWindow i s) = focusedCount s"
  "focusedCount (updateWindowPosition i a b s) = focusedCount s"
  "focusedCount (updateWindowSize i a b s) = focusedCount s"
proof -
  have "filter isFocused (map (\<lambda>w. if id_win w = i then g w else w) ws) =
        map (\<lambda>w. if id_win w = i then g w else w) (filter isFocused ws)"
    if "\<And>w. isFocused (g w) = isFocused w"
    for g :: "'a WindowState \<Rightarrow> 'a WindowState" and ws
    using that by (induction ws) simp_all
  then show
    "focusedCount (maximizeWindow i s) = focusedCount s"
    "focusedCount (updateWindowPosition i a b s) = focusedCount s"
    "focusedCount (updateWindowSize i a b s) = focusedCount s"
    by (simp_all add: focusedCount_def maximizeWindow_def updateWindowPosition_def
        updateWindowSize_def)
qed

lemma single_focus_perform:
  assumes "distinct (ids s)" and "focusedCount s \<le> 1"
  shows "focusedCount (perform s op) \<le> 1"
proof (cases op)
  case (Open d)
  with assms show ?thesis by (simp add: focusedCount_openWindow)
next
  case (Close i)
  with assms show ?thesis using focusedCount_closeWindow [of i s] by simp
next
  case (Minimize i)
  with assms show ?thesis using focusedCount_minimizeWindow [of i s] by simp
next
  case (Restore i)
  with assms show ?thesis by (simp add: focusedCount_restoreWindow)
next
  case (Focus i)
  with assms show ?thesis by (simp add: focusedCount_focusWindow)
qed (use assms in \<open>simp_all add: focusedCount_unchanged\<close>)

lemma single_focus_foldl:
  "distinct (ids s) \<Longrightarrow> focusedCount s \<le> 1 \<Longrightarrow> focusedCount (foldl perform s ops) \<le> 1"
proof (induction ops arbitrary: s)
  case Nil
  then show ?case by simp
next
  case (Cons op ops)
  from Cons.prems have "distinct (ids (perform s op))" and "focusedCount (perform s op) \<le> 1"
    by (simp_all only: distinct_perform single_focus_perform)
  then have "focusedCount (foldl perform (perform s op) ops) \<le> 1"
    by (rule Cons.IH)
  then show ?case by simp
qed


text \<open>
  Claim C1. Opening windows with pairwise distinct ids, starting from no window, leaves
  exactly one record focused after each call: after the first \<open>n\<close> calls, for every
  \<open>n\<close> from 1 to the number of calls. And in no state that any sequence of operations
  reaches are two records focused.
\<close>

theorem single_focus:
  "(distinct (map id_win ds) \<and> 0 < n \<and> n \<le> length ds \<longrightarrow>
      focusedCount (run (map Open (take n ds))) = 1) \<and>
   focusedCount (run ops) \<le> 1"
proof
  show "distinct (map id_win ds) \<and> 0 < n \<and> n \<le> length ds \<longrightarrow>
      focusedCount (run (map Open (take n ds))) = 1"
  proof
    assume h: "distinct (map id_win ds) \<and> 0 < n \<and> n \<le> length ds"
    then obtain m where n: "n = Suc m" by (cases n) auto
    with h have "take n ds = take m ds @ [ds ! m]"
      by (simp add: take_Suc_conv_app_nth)
    then have "run (map Open (take n ds)) = openWindow (ds ! m) (run (map Open (take m ds)))"
      by (simp add: run_snoc)
    then show "focusedCount (run (map Open (take n ds))) = 1"
      by (simp add: focusedCount_openWindow distinct_run)
  qed
  show "focusedCount (run ops) \<le> 1"
    unfolding run_def
    by (rule single_focus_foldl) (simp_all add: ids_def initial_def focusedCount_def)
qed

theorem single_focus_witness:
  "distinct (map id_win [exampleWindow ''chat'' False, exampleWindow ''notepad'' False]) \<and>
   0 < (2::nat) \<and> 2 \<le> length [exampleWindow ''chat'' False, exampleWindow ''notepad'' False] \<and>
   focusedCount (run (map Open
      (take 2 [exampleWindow ''chat'' False, exampleWindow ''notepad'' False]))) = 1 \<and>
   focusedCount (run [Open (exampleWindow ''chat'' False), Minimize ''chat'']) \<le> 1"
  using single_focus [of "[exampleWindow ''chat'' False, exampleWindow ''notepad'' False]" 2
      "[Open (exampleWindow ''chat'' False), Minimize ''chat'']"]
  by (simp add: exampleWindow_def)


subsection \<open>Operations on an id that is not open\<close>

text \<open>
  Claim C3, as the code has it. Called with an id that no window has, \<open>closeWindow\<close>,
  \<open>minimizeWindow\<close>, \<open>maximizeWindow\<close>, \<open>updateWindowPosition\<close> and \<open>updateWindowSize\<close>
  leave the state as it was. \<open>focusWindow\<close> and \<open>restoreWindow\<close> keep the length of the
  list and every field of every record but \<open>isFocused\<close>, which they set to false in all
  records; they also advance the counter.
\<close>

theorem absent_id_effect:
  assumes "i \<notin> id_win ` set (windows s)"
  shows "closeWindow i s = s \<and> minimizeWindow i s = s \<and> maximizeWindow i s = s \<and>
         updateWindowPosition i a b s = s \<and> updateWindowSize i a b s = s \<and>
         windows (focusWindow i s) = map (\<lambda>w. w\<lparr>isFocused := False\<rparr>) (windows s) \<and>
         windows (restoreWindow i s) = map (\<lambda>w. w\<lparr>isFocused := False\<rparr>) (windows s) \<and>
         topZIndex (focusWindow i s) = topZIndex s + 1 \<and>
         topZIndex (restoreWindow i s) = topZIndex s + 1"
proof -
  have "filter (\<lambda>w. id_win w \<noteq> i) (windows s) = windows s"
    using assms by (auto simp: filter_id_conv)
  then have "closeWindow i s = s"
    by (simp add: closeWindow_def)
  moreover have "minimizeWindow i s = s" "maximizeWindow i s = s"
    "updateWindowPosition i a b s = s" "updateWindowSize i a b s = s"
    using assms
    by (simp_all add: minimizeWindow_def maximizeWindow_def updateWindowPosition_def
        updateWindowSize_def map_untouched [where g = "\<lambda>w. w"])
  moreover have "windows (focusWindow i s) = map (\<lambda>w. w\<lparr>isFocused := False\<rparr>) (windows s)"
    "windows (restoreWindow i s) = map (\<lambda>w. w\<lparr>isFocused := False\<rparr>) (windows s)"
    using assms by (simp_all add: focusWindow_def restoreWindow_def Let_def map_untouched)
  moreover have "topZIndex (focusWindow i s) = topZIndex s + 1"
    "topZIndex (restoreWindow i s) = topZIndex s + 1"
    by (simp_all add: focusWindow_def restoreWindow_def Let_def)
  ultimately show ?thesis by simp
qed


text \<open>
  The claim as stated fails for \<open>focusWindow\<close>: with the single window \<open>chat\<close> open and
  focused, focusing the id \<open>notepad\<close> takes the focus from \<open>chat\<close>.
\<close>

theorem focus_absent_id_counterexample:
  "''notepad'' \<notin> id_win ` set (windows (run [Open (exampleWindow ''chat'' False)])) \<and>
   map isFocused (windows (run [Open (exampleWindow ''chat'' False)])) = [True] \<and>
   map isFocused (windows (focusWindow ''notepad'' (run [Open (exampleWindow ''chat'' False)])))
     = [False] \<and>
   windows (focusWindow ''notepad'' (run [Open (exampleWindow ''chat'' False)])) \<noteq>
   windows (run [Open (exampleWindow ''chat'' False)])"
  by (simp add: run_def initial_def openWindow_def focusWindow_def newWindow_def
      exampleWindow_def WindowDescriptor.extend_def WindowState.fields_def Let_def)

theorem absent_id_effect_witness:
  "''notepad'' \<notin> id_win ` set (windows (run [Open (exampleWindow ''chat'' False)])) \<and>
   closeWindow ''notepad'' (run [Open (exampleWindow ''chat'' False)]) =
     run [Open (exampleWindow ''chat'' False)] \<and>
   map isFocused (windows (restoreWindow ''notepad'' (run [Open (exampleWindow ''chat'' False)])))
     = [False]"
proof -
  have h: "''notepad'' \<notin> id_win ` set (windows (run [Open (exampleWindow ''chat'' False)]))"
    by (simp add: run_def initial_def openWindow_def newWindow_def
      exampleWindow_def WindowDescriptor.extend_def WindowState.fields_def Let_def)
  show ?thesis
    using h absent_id_effect [OF h, of 0 0]
    by (simp add: run_def initial_def openWindow_def newWindow_def
      exampleWindow_def WindowDescriptor.extend_def WindowState.fields_def Let_def)
qed


subsection \<open>Minimized and focused\<close>





lemma taskbar_click_permitted:
  assumes "distinct (ids s)" and "w \<in> set (windows s)"
  shows "handleWindowClick (id_win w) (isMinimized w) s =
           perform s (if isMinimized w then Restore (id_win w) else Focus (id_win w)) \<and>
         permitted s (if isMinimized w then Restore (id_win w) else Focus (id_win w))"
proof (cases "isMinimized w")
  case True
  then show ?thesis by (simp add: handleWindowClick_def)
next
  case False
  have "\<not> isMinimized w'" if "w' \<in> set (windows s)" and "id_win w' = id_win w" for w'
    using same_id_same_window [OF assms(1) that(1) assms(2) that(2)] False by simp
  with False show ?thesis
    by (simp add: handleWindowClick_def list_all_iff)
qed






text \<open>
  The order of application matters: \<open>focusWindow\<close> and then \<open>minimizeWindow\<close> of one id,
  both called before one render, are permitted in the order of the calls, but the update
  of \<open>focusWindow\<close> is applied last, to a minimized window, and the window ends minimized
  and focused.
\<close>

lemma focus_then_minimize_in_one_batch:
  "permittedRun initial
     (concat [[Open (exampleWindow ''chat'' False)], [Focus ''chat'', Minimize ''chat'']]) \<and>
   \<not> permittedRun initial
     (concat (map applied
        [[Open (exampleWindow ''chat'' False)], [Focus ''chat'', Minimize ''chat'']])) \<and>
   map (\<lambda>w. (id_win w, isMinimized w, isFocused w))
     (windows (runBatches [[Open (exampleWindow ''chat'' False)],
                           [Focus ''chat'', Minimize ''chat'']]))
   = [(''chat'', True, True)]"
  by (simp add: runBatches_def applied_def run_def initial_def openWindow_def minimizeWindow_def
      focusWindow_def newWindow_def exampleWindow_def WindowDescriptor.extend_def
      WindowState.fields_def Let_def)



subsection \<open>The focused window is on top\<close>

lemma zBounded_openWindow:
  assumes "zBounded s"
  shows "zBounded (openWindow d s)"
proof -
  from assms have Z: "\<forall>w\<in>set (windows s). zIndex w \<le> topZIndex s"
    by (simp add: zBounded_def list_all_iff)
  have Z': "\<forall>w\<in>set (windows s). zIndex w \<le> topZIndex s + 1"
  proof
    fix w
    assume "w \<in> set (windows s)"
    with Z have "zIndex w \<le> topZIndex s" by simp
    then show "zIndex w \<le> topZIndex s + 1" by simp
  qed
  show ?thesis
  proof (cases "find (\<lambda>w. id_win w = id_win d) (windows s)")
    case None
    with Z' show ?thesis
      by (simp add: zBounded_def openWindow_def Let_def newWindow_def list_all_iff
          WindowDescriptor.extend_def WindowState.fields_def)
  next
    case (Some e)
    with Z' show ?thesis
      by (simp add: zBounded_def openWindow_def Let_def list_all_map_if)
  qed
qed

lemma zBounded_perform:
  assumes "zBounded s"
  shows "zBounded (perform s op)"
proof -
  from assms have Z: "\<forall>w\<in>set (windows s). zIndex w \<le> topZIndex s"
    by (simp add: zBounded_def list_all_iff)
  have Z': "\<forall>w\<in>set (windows s). zIndex w \<le> topZIndex s + 1"
  proof
    fix w
    assume "w \<in> set (windows s)"
    with Z have "zIndex w \<le> topZIndex s" by simp
    then show "zIndex w \<le> topZIndex s + 1" by simp
  qed
  show ?thesis
  proof (cases op)
    case (Open d)
    with assms show ?thesis by (simp add: zBounded_openWindow)
  next
    case (Close i)
    with Z show ?thesis by (simp add: zBounded_def closeWindow_def list_all_iff)
  next
    case (Minimize i)
    with Z show ?thesis by (simp add: zBounded_def minimizeWindow_def list_all_map_if)
  next
    case (Maximize i)
    with Z show ?thesis by (simp add: zBounded_def maximizeWindow_def list_all_map_if)
  next
    case (Restore i)
    with Z' show ?thesis by (simp add: zBounded_def restoreWindow_def list_all_map_if Let_def)
  next
    case (Focus i)
    with Z' show ?thesis by (simp add: zBounded_def focusWindow_def list_all_map_if Let_def)
  next
    case (Move i a b)
    with Z show ?thesis by (simp add: zBounded_def updateWindowPosition_def list_all_map_if)
  next
    case (Resize i a b)
    with Z show ?thesis by (simp add: zBounded_def updateWindowSize_def list_all_map_if)
  qed
qed

lemma zBounded_foldl: "zBounded s \<Longrightarrow> zBounded (foldl perform s ops)"
  by (induction ops arbitrary: s) (simp_all add: zBounded_perform)

lemma zBounded_run: "zBounded (run ops)"
  unfolding run_def by (rule zBounded_foldl) (simp add: zBounded_def initial_def)


text \<open>
  Claim C6. In every reachable state, right after \<open>focusWindow i\<close> for the id \<open>i\<close> of an
  open window (the record at position \<open>j\<close>), the stacking index of that record is strictly
  above the stacking index of every other record.
\<close>

theorem focus_on_top:
  assumes "j < length (windows (run ops))" and "k < length (windows (run ops))"
    and "k \<noteq> j" and "id_win (windows (run ops) ! j) = i"
  shows "zIndex (windows (focusWindow i (run ops)) ! k) <
         zIndex (windows (focusWindow i (run ops)) ! j)"
proof -
  let ?ws = "windows (run ops)"
  have "distinct (map id_win ?ws)"
    using distinct_run [of ops] by (simp add: ids_def)
  with assms have "map id_win ?ws ! k \<noteq> map id_win ?ws ! j"
    by (simp add: nth_eq_iff_index_eq del: nth_map)
  with assms have other: "id_win (?ws ! k) \<noteq> i"
    by simp
  have "zIndex (?ws ! k) \<le> topZIndex (run ops)"
    using zBounded_run [of ops] assms(2) by (simp add: zBounded_def list_all_length)
  with assms other show ?thesis
    by (simp add: focusWindow_def Let_def)
qed


theorem focus_on_top_witness:
  "0 < length (windows (run [Open (exampleWindow ''chat'' False),
                             Open (exampleWindow ''notepad'' False)])) \<and>
   1 < length (windows (run [Open (exampleWindow ''chat'' False),
                             Open (exampleWindow ''notepad'' False)])) \<and>
   (1::nat) \<noteq> 0 \<and>
   id_win (windows (run [Open (exampleWindow ''chat'' False),
                         Open (exampleWindow ''notepad'' False)]) ! 0) = ''chat'' \<and>
   zIndex (windows (focusWindow ''chat'' (run [Open (exampleWindow ''chat'' False),
                         Open (exampleWindow ''notepad'' False)])) ! 1) <
   zIndex (windows (focusWindow ''chat'' (run [Open (exampleWindow ''chat'' False),
                         Open (exampleWindow ''notepad'' False)])) ! 0)"
proof -
  let ?ops = "[Open (exampleWindow ''chat'' False), Open (exampleWindow ''notepad'' False)]"
  have ws: "map id_win (windows (run ?ops)) = [''chat'', ''notepad'']"
    by (simp add: run_def initial_def openWindow_def newWindow_def exampleWindow_def
        WindowDescriptor.extend_def WindowState.fields_def Let_def)
  then have len: "length (windows (run ?ops)) = 2"
    using length_map [of id_win "windows (run ?ops)"] by simp
  have first: "id_win (windows (run ?ops) ! 0) = ''chat''"
    using ws len nth_map [of 0 "windows (run ?ops)" id_win] by simp
  show ?thesis
    using len first focus_on_top [of 0 ?ops 1 "''chat''"] by simp
qed


subsection \<open>Opening an id that is already open\<close>

text \<open>
  Claim C8. When the id of the descriptor is the id of an open window that is minimized,
  \<open>openWindow\<close> appends nothing: the list keeps its length, the record with that id gets
  \<open>isMinimized\<close> false, \<open>isFocused\<close> true and the next stacking index (the counter plus 1,
  which is also the new counter), and every other record gets \<open>isFocused\<close> false and is
  otherwise unchanged.
\<close>

theorem reopen_minimized:
  assumes "find (\<lambda>w. id_win w = id_win d) (windows s) = Some e" and "isMinimized e"
  shows "length (windows (openWindow d s)) = length (windows s) \<and>
         topZIndex (openWindow d s) = topZIndex s + 1 \<and>
         (\<forall>j<length (windows s).
            windows (openWindow d s) ! j =
              (if id_win (windows s ! j) = id_win d
               then (windows s ! j)\<lparr>isMinimized := False, isFocused := True,
                                       zIndex := topZIndex s + 1\<rparr>
               else (windows s ! j)\<lparr>isFocused := False\<rparr>))"
  using assms by (simp add: openWindow_def Let_def)


theorem reopen_minimized_witness:
  "find (\<lambda>w. id_win w = id_win (exampleWindow ''chat'' False))
     (windows (run [Open (exampleWindow ''chat'' False), Open (exampleWindow ''notepad'' False),
                    Minimize ''chat''])) =
     Some (newWindow (exampleWindow ''chat'' True) 101\<lparr>isFocused := False\<rparr>) \<and>
   isMinimized (newWindow (exampleWindow ''chat'' True) 101\<lparr>isFocused := False\<rparr>) \<and>
   length (windows (openWindow (exampleWindow ''chat'' False)
        (run [Open (exampleWindow ''chat'' False), Open (exampleWindow ''notepad'' False),
              Minimize ''chat'']))) = 2 \<and>
   topZIndex (openWindow (exampleWindow ''chat'' False)
        (run [Open (exampleWindow ''chat'' False), Open (exampleWindow ''notepad'' False),
              Minimize ''chat''])) = 103 \<and>
   windows (openWindow (exampleWindow ''chat'' False)
        (run [Open (exampleWindow ''chat'' False), Open (exampleWindow ''notepad'' False),
              Minimize ''chat''])) ! 0 =
     newWindow (exampleWindow ''chat'' False) 103 \<and>
   windows (openWindow (exampleWindow ''chat'' False)
        (run [Open (exampleWindow ''chat'' False), Open (exampleWindow ''notepad'' False),
              Minimize ''chat''])) ! 1 =
     newWindow (exampleWindow ''notepad'' False) 102\<lparr>isFocused := False\<rparr>"
proof -
  let ?s = "run [Open (exampleWindow ''chat'' False), Open (exampleWindow ''notepad'' False),
                 Minimize ''chat'']"
  let ?e = "newWindow (exampleWindow ''chat'' True) 101\<lparr>isFocused := False\<rparr>"
  have ws: "windows ?s = [?e, newWindow (exampleWindow ''notepad'' False) 102]"
    and top: "topZIndex ?s = 102"
    by (simp_all add: run_def initial_def openWindow_def minimizeWindow_def newWindow_def
        exampleWindow_def WindowDescriptor.extend_def WindowState.fields_def Let_def)
  have h1: "find (\<lambda>w. id_win w = id_win (exampleWindow ''chat'' False)) (windows ?s) = Some ?e"
    unfolding ws
    by (simp add: newWindow_def exampleWindow_def WindowDescriptor.extend_def
        WindowState.fields_def)
  have h2: "isMinimized ?e"
    by (simp add: newWindow_def exampleWindow_def WindowDescriptor.extend_def
        WindowState.fields_def)
  have len: "length (windows ?s) = 2"
    unfolding ws by simp
  from reopen_minimized [OF h1 h2] len
  have "windows (openWindow (exampleWindow ''chat'' False) ?s) ! 0 =
          (if id_win (windows ?s ! 0) = id_win (exampleWindow ''chat'' False)
           then (windows ?s ! 0)\<lparr>isMinimized := False, isFocused := True,
                                  zIndex := topZIndex ?s + 1\<rparr>
           else (windows ?s ! 0)\<lparr>isFocused := False\<rparr>)"
    and "windows (openWindow (exampleWindow ''chat'' False) ?s) ! 1 =
          (if id_win (windows ?s ! 1) = id_win (exampleWindow ''chat'' False)
           then (windows ?s ! 1)\<lparr>isMinimized := False, isFocused := True,
                                  zIndex := topZIndex ?s + 1\<rparr>
           else (windows ?s ! 1)\<lparr>isFocused := False\<rparr>)"
    and "length (windows (openWindow (exampleWindow ''chat'' False) ?s)) = 2"
    and "topZIndex (openWindow (exampleWindow ''chat'' False) ?s) = topZIndex ?s + 1"
    by simp_all
  then have "windows (openWindow (exampleWindow ''chat'' False) ?s) ! 0 =
          newWindow (exampleWindow ''chat'' False) 103"
    and "windows (openWindow (exampleWindow ''chat'' False) ?s) ! 1 =
          newWindow (exampleWindow ''notepad'' False) 102\<lparr>isFocused := False\<rparr>"
    and "length (windows (openWindow (exampleWindow ''chat'' False) ?s)) = 2"
    and "topZIndex (openWindow (exampleWindow ''chat'' False) ?s) = 103"
    unfolding ws top
    by (simp_all add: newWindow_def exampleWindow_def WindowDescriptor.extend_def
        WindowState.fields_def)
  with h1 h2 show ?thesis
    by (simp only: simp_thms)
qed

text \<open>
  Claim C10. When the id of the descriptor is the id of an open window that is not
  minimized, \<open>openWindow\<close> changes no field of any record but \<open>isFocused\<close> and \<open>zIndex\<close>:
  putting the old values of these two back gives the old record. Nothing of the descriptor
  but its id is used: any descriptor with the same id gives the same state.
\<close>

theorem reopen_visible:
  assumes "find (\<lambda>w. id_win w = id_win d) (windows s) = Some e" and "\<not> isMinimized e"
  shows "length (windows (openWindow d s)) = length (windows s) \<and>
         (\<forall>j<length (windows s).
            (windows (openWindow d s) ! j)\<lparr>isFocused := isFocused (windows s ! j),
                                              zIndex := zIndex (windows s ! j)\<rparr> =
            windows s ! j) \<and>
         (\<forall>d'. id_win d' = id_win d \<longrightarrow> openWindow d' s = openWindow d s)"
  using assms by (simp add: openWindow_def Let_def)


theorem reopen_visible_witness:
  "find (\<lambda>w. id_win w = id_win (exampleWindow ''chat'' True\<lparr>title := ''Other'', x := 0\<rparr>))
     (windows (run [Open (exampleWindow ''chat'' False), Open (exampleWindow ''notepad'' False)])) =
     Some (newWindow (exampleWindow ''chat'' False) 101\<lparr>isFocused := False\<rparr>) \<and>
   \<not> isMinimized (newWindow (exampleWindow ''chat'' False) 101\<lparr>isFocused := False\<rparr>) \<and>
   openWindow (exampleWindow ''chat'' True\<lparr>title := ''Other'', x := 0\<rparr>)
     (run [Open (exampleWindow ''chat'' False), Open (exampleWindow ''notepad'' False)]) =
   openWindow (exampleWindow ''chat'' False)
     (run [Open (exampleWindow ''chat'' False), Open (exampleWindow ''notepad'' False)]) \<and>
   (windows (openWindow (exampleWindow ''chat'' True\<lparr>title := ''Other'', x := 0\<rparr>)
     (run [Open (exampleWindow ''chat'' False), Open (exampleWindow ''notepad'' False)])) ! 0)
     \<lparr>isFocused := False, zIndex := 101\<rparr> =
   newWindow (exampleWindow ''chat'' False) 101\<lparr>isFocused := False\<rparr>"
proof -
  let ?s = "run [Open (exampleWindow ''chat'' False), Open (exampleWindow ''notepad'' False)]"
  let ?d = "exampleWindow ''chat'' True\<lparr>title := ''Other'', x := 0\<rparr>"
  let ?e = "newWindow (exampleWindow ''chat'' False) 101\<lparr>isFocused := False\<rparr>"
  have ws: "windows ?s = [?e, newWindow (exampleWindow ''notepad'' False) 102]"
    by (simp add: run_def initial_def openWindow_def newWindow_def
        exampleWindow_def WindowDescriptor.extend_def WindowState.fields_def Let_def)
  have h1: "find (\<lambda>w. id_win w = id_win ?d) (windows ?s) = Some ?e"
    unfolding ws
    by (simp add: newWindow_def exampleWindow_def WindowDescriptor.extend_def
        WindowState.fields_def)
  have h2: "\<not> isMinimized ?e"
    by (simp add: newWindow_def exampleWindow_def WindowDescriptor.extend_def
        WindowState.fields_def)
  have first: "windows ?s ! 0 = ?e" and len: "0 < length (windows ?s)"
    unfolding ws by simp_all
  have same: "id_win (exampleWindow ''chat'' False) = id_win ?d"
    by (simp add: exampleWindow_def)
  from reopen_visible [OF h1 h2] len same
  have "(windows (openWindow ?d ?s) ! 0)\<lparr>isFocused := isFocused (windows ?s ! 0),
            zIndex := zIndex (windows ?s ! 0)\<rparr> = windows ?s ! 0"
    and "openWindow (exampleWindow ''chat'' False) ?s = openWindow ?d ?s"
    by blast+
  with h1 h2 show ?thesis
    unfolding first
    by (simp add: newWindow_def exampleWindow_def WindowDescriptor.extend_def
        WindowState.fields_def)
qed


section \<open>Properties of the folder view\<close>

lemma advance_idle: "pending v = [] \<Longrightarrow> advance sentry t v = v"
  by (simp add: advance_def)

lemma advance_early:
  assumes "pending v = [(h, due, item)]" and "t < due"
  shows "advance sentry t v = v"
  using assms by (simp add: advance_def)


lemma clear_none: "pending v = [] \<Longrightarrow> clearClickTimeout v = v"
  by (simp add: clearClickTimeout_def split: option.split)

lemma clear_single:
  "clickTimeout v = Some h \<Longrightarrow> pending v = [(h, due, item)] \<Longrightarrow>
   clearClickTimeout v = v\<lparr>pending := []\<rparr>"
  by (simp add: clearClickTimeout_def)

lemma handle_first:
  assumes "clickCount v = 0" and "pending v = []"
  shows "handleItemClick sentry t1 a v =
     v\<lparr>clickTimeout := Some (nextHandle v), clickCount := 1, lastClickedId := Some (id_item a),
       pending := [(nextHandle v, t1 + 250, a)], nextHandle := nextHandle v + 1\<rparr>"
  using assms by (simp add: handleItemClick_def Let_def clear_none)


lemma handle_second_throws:
  assumes "\<not> increment sentry"
    and "clickCount v = 1" and "lastClickedId v = Some (id_item a)"
    and "clickTimeout v = Some h" and "pending v = [(h, due, item)]"
  shows "handleItemClick sentry t a v =
     v\<lparr>lastClickedId := Some (id_item a), clickCount := 0, pending := [],
       effects := effects v @ [Threw]\<rparr>"
  using assms
  by (simp add: handleItemClick_def Let_def clear_single [of _ h due item])


lemma first_click:
  assumes "idle v"
  shows "click sentry t1 a v =
     v\<lparr>clickTimeout := Some (nextHandle v), clickCount := 1, lastClickedId := Some (id_item a),
       pending := [(nextHandle v, t1 + 250, a)], nextHandle := nextHandle v + 1\<rparr>"
  using assms by (simp add: click_def idle_def advance_idle handle_first)


text \<open>
  A view that was mounted has a reporter with \<open>increment\<close>, and starts with no click
  pending.
\<close>

lemma mount_increment: "mount sentry = Some v \<Longrightarrow> increment sentry \<and> idle v"
  by (auto simp: mount_def idle_def mounted_def split: if_splits)




lemma double_click_without_increment:
  assumes "\<not> increment sentry" and "idle v" and "t2 < t1 + 250"
  shows "effects (advance sentry T (click sentry t2 a (click sentry t1 a v))) =
      effects v @ [Threw]"
proof -
  define v1 where "v1 = click sentry t1 a v"
  have v1: "clickCount v1 = 1" "lastClickedId v1 = Some (id_item a)"
    "clickTimeout v1 = Some (nextHandle v)" "pending v1 = [(nextHandle v, t1 + 250, a)]"
    "effects v1 = effects v"
    by (simp_all add: v1_def first_click [OF assms(2)])
  from assms(3) have "click sentry t2 a v1 = handleItemClick sentry t2 a v1"
    by (simp add: click_def advance_early [OF v1(4)])
  also have "\<dots> = v1\<lparr>lastClickedId := Some (id_item a), clickCount := 0, pending := [],
       effects := effects v1 @ [Threw]\<rparr>"
    by (rule handle_second_throws [OF assms(1) v1(1-4)])
  finally show ?thesis
    by (simp add: advance_idle v1(5) v1_def [symmetric])
qed





section \<open>Properties of the chat endpoint\<close>

subsection \<open>The end of the stream\<close>

lemma forward_events: "Sentinel \<notin> set (forward m)"
proof -
  have "Sentinel \<notin> set (toolStarts bs)" for bs
    by (induction bs rule: toolStarts.induct) simp_all
  then show ?thesis
    by (cases m rule: forward.cases) simp_all
qed

lemma start_completes:
  "Throw \<notin> set up \<Longrightarrow> start up = concat (map (\<lambda>u. case u of Yield m \<Rightarrow> forward m | Throw \<Rightarrow> []) up) @ [Sentinel]"
  by (induction up rule: start.induct) simp_all

lemma start_throws:
  "Throw \<in> set up \<Longrightarrow>
   (\<exists>fs. start up = fs @ [Event (Error ''Stream error occurred'')] \<and> Sentinel \<notin> set fs)"
proof (induction up rule: start.induct)
  case 1
  then show ?case by simp
next
  case (2 rest)
  show ?case by simp
next
  case (3 message rest)
  then obtain fs where "start rest = fs @ [Event (Error ''Stream error occurred'')]"
    and "Sentinel \<notin> set fs"
    by auto
  then have "start (Yield message # rest) = (forward message @ fs) @ [Event (Error ''Stream error occurred'')]"
    and "Sentinel \<notin> set (forward message @ fs)"
    by (simp_all add: forward_events)
  then show ?case by blast
qed

lemma prepare_error: "prepare request = Inl r \<Longrightarrow> \<exists>status body. r = JsonResponse status body"
  by (auto simp: prepare_def badRequest_def serverError_def Let_def
      split: option.splits sum.splits if_splits)


text \<open>
  Claim C2, as the code has it. When the handler answers with a stream, it has called the
  runtime with the arguments \<open>prepare\<close> built, and the frames are those of that run. If no
  exception is thrown while the run is consumed, whether it ends in a success, in another
  result or in none, the last frame is the sentinel; if moreover the last message of the run
  is the result \<open>success\<close>, the last two frames are the \<open>done\<close> event and the sentinel.
  If an exception is thrown, the last frame is the event \<open>error\<close> with the message
  \<open>Stream error occurred\<close>, and no sentinel is sent.
\<close>

theorem stream_termination:
  assumes "POST query request = StreamResponse frames"
  shows "\<exists>args. prepare request = Inr args \<and>
     (Throw \<notin> set (query args) \<longrightarrow> last frames = Sentinel) \<and>
     (Throw \<notin> set (query args) \<and> query args \<noteq> [] \<and>
      last (query args) = Yield (Result ''success'') \<longrightarrow>
        drop (length frames - 2) frames = [Event Done, Sentinel]) \<and>
     (Throw \<in> set (query args) \<longrightarrow>
        last frames = Event (Error ''Stream error occurred'') \<and> Sentinel \<notin> set frames)"
proof (cases "prepare request")
  case (Inl r)
  with assms prepare_error [OF Inl] show ?thesis
    by (auto simp: POST_def)
next
  case (Inr args)
  with assms have frames: "frames = start (query args)"
    by (simp add: POST_def)
  have a: "last frames = Sentinel" if "Throw \<notin> set (query args)"
    using start_completes [OF that] by (simp add: frames)
  have b: "drop (length frames - 2) frames = [Event Done, Sentinel]"
    if "Throw \<notin> set (query args)" and "query args \<noteq> []"
      and "last (query args) = Yield (Result ''success'')"
  proof -
    from that(2,3) obtain pre where "query args = pre @ [Yield (Result ''success'')]"
      by (metis append_butlast_last_id)
    with start_completes [OF that(1)] show ?thesis
      by (simp add: frames)
  qed
  have c: "last frames = Event (Error ''Stream error occurred'') \<and> Sentinel \<notin> set frames"
    if "Throw \<in> set (query args)"
    using start_throws [OF that] by (auto simp: frames)
  from Inr a b c show ?thesis by blast
qed


text \<open>
  The claim as stated fails when the runtime throws: the \<open>catch\<close> block sends the error
  event and closes the stream without the sentinel.
\<close>

theorem stream_throw_counterexample:
  "POST (\<lambda>args. [Yield (StreamEvent (ContentBlockDelta (Some (TextDelta ''Hi'')))), Throw])
     helloRequest =
   StreamResponse [Event (Text_delta ''Hi''), Event (Error ''Stream error occurred'')]"
  by (simp add: POST_def prepare_def helloRequest_def messageInput_def contentLength_def
      fullPrompt_def conversationContext_def)

theorem stream_termination_witness:
  "POST (\<lambda>args. [Yield (StreamEvent (ContentBlockDelta (Some (TextDelta ''Hi'')))),
                  Yield (Result ''success'')]) helloRequest =
     StreamResponse [Event (Text_delta ''Hi''), Event Done, Sentinel] \<and>
   last [Event (Text_delta ''Hi''), Event Done, Sentinel] = Sentinel \<and>
   drop (length [Event (Text_delta ''Hi''), Event Done, Sentinel] - 2)
     [Event (Text_delta ''Hi''), Event Done, Sentinel] = [Event Done, Sentinel]"
proof -
  have h: "POST (\<lambda>args. [Yield (StreamEvent (ContentBlockDelta (Some (TextDelta ''Hi'')))),
                  Yield (Result ''success'')]) helloRequest =
     StreamResponse [Event (Text_delta ''Hi''), Event Done, Sentinel]"
    by (simp add: POST_def prepare_def helloRequest_def messageInput_def contentLength_def
      fullPrompt_def conversationContext_def)
  show ?thesis
    using h stream_termination [OF h] by simp
qed

subsection \<open>Validation\<close>

lemma property_object: "m \<noteq> JNull \<Longrightarrow> \<exists>v. property m key = Inr v"
  by (cases m) simp_all

lemma userMessages_none:
  assumes "JNull \<notin> set ms"
    and "\<forall>m\<in>set ms. property m ''role'' \<noteq> Inr (Some (JStr ''user''))"
  shows "userMessages ms = Inr []"
  using assms
proof (induction ms)
  case Nil
  show ?case by simp
next
  case (Cons m ms)
  then have "m \<noteq> JNull" by auto
  then obtain v where v: "property m ''role'' = Inr v"
    using property_object by blast
  with Cons.prems have "v \<noteq> Some (JStr ''user'')" by auto
  with v Cons show ?case by simp
qed


text \<open>
  Claim C5, as the code has it. A request whose body is JSON other than \<open>null\<close> (so that
  reading \<open>messages\<close> gives a value, or \<open>undefined\<close> when there is no such field) and
  whose \<open>messages\<close> is not an array is answered with status 400 and the body
  \<open>{error: "Messages array is required"}\<close>. A request whose \<open>messages\<close> is an array with
  no \<open>null\<close> element and no element of role \<open>user\<close> is answered with status 400 and
  \<open>{error: "No user message found"}\<close>. Both answers are plain responses, whatever the
  runtime would do: no stream is created and the runtime is not called.
\<close>

theorem validation_errors:
  "(property body ''messages'' = Inr messages \<and> \<not> isArray messages \<longrightarrow>
      POST query (Some body) =
        JsonResponse 400 (JObj [(''error'', JStr ''Messages array is required'')])) \<and>
   (property body ''messages'' = Inr (Some (JArr ms)) \<and> JNull \<notin> set ms \<and>
    (\<forall>m\<in>set ms. property m ''role'' \<noteq> Inr (Some (JStr ''user''))) \<longrightarrow>
      POST query (Some body) =
        JsonResponse 400 (JObj [(''error'', JStr ''No user message found'')]))"
proof (intro conjI impI)
  assume "property body ''messages'' = Inr messages \<and> \<not> isArray messages"
  then show "POST query (Some body) =
        JsonResponse 400 (JObj [(''error'', JStr ''Messages array is required'')])"
    by (simp add: POST_def prepare_def badRequest_def)
next
  assume h: "property body ''messages'' = Inr (Some (JArr ms)) \<and> JNull \<notin> set ms \<and>
    (\<forall>m\<in>set ms. property m ''role'' \<noteq> Inr (Some (JStr ''user'')))"
  then have "userMessages ms = Inr []"
    by (simp add: userMessages_none)
  with h show "POST query (Some body) =
        JsonResponse 400 (JObj [(''error'', JStr ''No user message found'')])"
    by (simp add: POST_def prepare_def badRequest_def)
qed


text \<open>
  The claim as stated fails on \<open>null\<close>: the body \<open>null\<close> has no \<open>messages\<close> field, and
  the array \<open>[null]\<close> has no message of role \<open>user\<close>, but reading a property of \<open>null\<close>
  throws, and the outer \<open>catch\<close> answers with status 500.
\<close>

theorem null_request_counterexample:
  "POST (\<lambda>args. []) (Some JNull) =
     JsonResponse 500
       (JObj [(''error'', JStr ''Failed to process chat request. Check server logs for details.'')]) \<and>
   POST (\<lambda>args. []) (Some (JObj [(''messages'', JArr [JNull])])) =
     JsonResponse 500
       (JObj [(''error'', JStr ''Failed to process chat request. Check server logs for details.'')])"
  by (simp add: POST_def prepare_def serverError_def)

theorem validation_errors_witness:
  "property (JObj []) ''messages'' = Inr None \<and> \<not> isArray None \<and>
   POST (\<lambda>args. []) (Some (JObj [])) =
     JsonResponse 400 (JObj [(''error'', JStr ''Messages array is required'')]) \<and>
   property (JObj [(''messages'', JArr [messageInput (''assistant'', ''hi'')])]) ''messages'' =
     Inr (Some (JArr [messageInput (''assistant'', ''hi'')])) \<and>
   JNull \<notin> set [messageInput (''assistant'', ''hi'')] \<and>
   property (messageInput (''assistant'', ''hi'')) ''role'' \<noteq> Inr (Some (JStr ''user'')) \<and>
   POST (\<lambda>args. []) (Some (JObj [(''messages'', JArr [messageInput (''assistant'', ''hi'')])])) =
     JsonResponse 400 (JObj [(''error'', JStr ''No user message found'')])"
  using validation_errors [of "JObj []" None "\<lambda>args. []" "[]"]
    validation_errors [of "JObj [(''messages'', JArr [messageInput (''assistant'', ''hi'')])]"
      None "\<lambda>args. []" "[messageInput (''assistant'', ''hi'')]"]
  by (simp add: messageInput_def)


subsection \<open>The prompt\<close>

lemma userMessages_filter:
  "JNull \<notin> set ms \<Longrightarrow> userMessages ms = Inr (filter isUser ms)"
proof (induction ms)
  case Nil
  show ?case by simp
next
  case (Cons m ms)
  then have "m \<noteq> JNull" by auto
  then obtain v where v: "property m ''role'' = Inr v"
    using property_object by blast
  with Cons show ?case by (simp add: isUser_def)
qed

lemma userMessages_null: "JNull \<in> set ms \<Longrightarrow> \<exists>e. userMessages ms = Inl e"
proof (induction ms)
  case Nil
  then show ?case by simp
next
  case (Cons m ms)
  show ?case
  proof (cases "m = JNull")
    case True
    then show ?thesis by simp
  next
    case False
    with Cons obtain e where "userMessages ms = Inl e" by auto
    then show ?thesis
      by (cases "property m ''role''") simp_all
  qed
qed

lemma transcriptLine_entry:
  "printed m = Some text \<Longrightarrow> transcriptLine m = Inr (entry m)"
  by (cases m) (auto simp: printed_def transcriptLine_def entry_def isUser_def split: sum.splits)

lemma transcriptLine_throws:
  "printed m = None \<Longrightarrow> \<exists>e. transcriptLine m = Inl e"
  by (cases m) (auto simp: printed_def transcriptLine_def split: sum.splits)

lemma transcriptLines_entries:
  "\<forall>m\<in>set ms. printed m \<noteq> None \<Longrightarrow> transcriptLines ms = Inr (map entry ms)"
  by (induction ms) (auto simp: transcriptLine_entry)

lemma transcriptLines_throws:
  "\<exists>m\<in>set ms. printed m = None \<Longrightarrow> \<exists>e. transcriptLines ms = Inl e"
proof (induction ms)
  case Nil
  then show ?case by simp
next
  case (Cons m ms)
  show ?case
  proof (cases "printed m")
    case None
    then obtain e where "transcriptLine m = Inl e"
      using transcriptLine_throws by blast
    then show ?thesis by simp
  next
    case (Some t)
    with Cons obtain e where "transcriptLines ms = Inl e" by auto
    then show ?thesis
      by (cases "transcriptLine m") simp_all
  qed
qed

lemma join_empty: "(\<forall>l\<in>set ls. l \<noteq> []) \<Longrightarrow> join sep ls = [] \<longleftrightarrow> ls = []"
  by (induction sep ls rule: join.induct) simp_all

lemma transcript_empty: "transcript ms = [] \<longleftrightarrow> ms = []"
  unfolding transcript_def by (subst join_empty) (auto simp: entry_def)

lemma butlast_empty: "butlast ms = [] \<longleftrightarrow> length ms \<le> 1"
  by (cases ms rule: rev_cases) simp_all

text \<open>
  Claim C9, as the code has it. Take a request whose \<open>messages\<close> is an array with no
  \<open>null\<close> element and at least one element of role \<open>user\<close>; whose last element of role
  \<open>user\<close> has a content other than \<open>null\<close> that can be printed; and in which the content
  of every element but the last can be printed. The handler calls the runtime with this
  prompt: the fixed instructions; then, when there is more than one message, the heading
  \<open>Previous conversation:\<close> and the transcript of all messages but the last; then
  \<open>User: \<close> and the printed content of the last message of role \<open>user\<close>. The call is made
  with \<open>maxTurns\<close> 10, and the answer is the stream of that call.
\<close>

theorem prompt_construction:
  assumes "property body ''messages'' = Inr (Some (JArr ms))"
    and "JNull \<notin> set ms"
    and "filter isUser ms \<noteq> []"
    and "hasContent (last (filter isUser ms))"
    and "printed (last (filter isUser ms)) = Some text"
    and "\<forall>m\<in>set (butlast ms). printed m \<noteq> None"
  shows "prepare (Some body) =
           Inr (queryArguments
             (SYSTEM_PROMPT @
              (if length ms \<le> 1 then []
               else ''\<newline>\<newline>Previous conversation:\<newline>'' @ transcript (butlast ms)) @
              ''\<newline>\<newline>User: '' @ text)) \<and>
         maxTurns (queryArguments p) = 10 \<and>
         (\<exists>args. POST query (Some body) = StreamResponse (start (query args)) \<and>
                 prepare (Some body) = Inr args)"
proof -
  let ?last = "last (filter isUser ms)"
  have users: "userMessages ms = Inr (filter isUser ms)"
    using assms(2) by (rule userMessages_filter)
  have len: "contentLength ?last = Inr ()"
    using assms(4)
    by (auto simp: contentLength_def hasContent_def split: sum.splits option.splits json.splits)
  have ctx: "conversationContext ms = Inr (transcript (butlast ms))"
    using transcriptLines_entries [OF assms(6)]
    by (simp add: conversationContext_def transcript_def)
  have full: "fullPrompt ms ?last =
      Inr (SYSTEM_PROMPT @
              (if length ms \<le> 1 then []
               else ''\<newline>\<newline>Previous conversation:\<newline>'' @ transcript (butlast ms)) @
              ''\<newline>\<newline>User: '' @ text)"
    using assms(5)
    by (auto simp: fullPrompt_def ctx printed_def transcript_empty butlast_empty
        split: sum.splits)
  have prep: "prepare (Some body) =
           Inr (queryArguments
             (SYSTEM_PROMPT @
              (if length ms \<le> 1 then []
               else ''\<newline>\<newline>Previous conversation:\<newline>'' @ transcript (butlast ms)) @
              ''\<newline>\<newline>User: '' @ text))"
    using assms(1,3)
    by (simp add: prepare_def users len full Let_def)
  then show ?thesis
    by (simp add: POST_def queryArguments_def)
qed

text \<open>
  The conditions are necessary as well: whenever the handler gets as far as the call of the
  runtime, they hold. And the messages of the declared type meet them.
\<close>

lemma isArray_elements: "isArray v \<Longrightarrow> v = Some (JArr (elements v))"
  by (cases v rule: isArray.cases) simp_all

lemma contentLength_hasContent: "contentLength m = Inr u \<longleftrightarrow> hasContent m"
  by (auto simp: contentLength_def hasContent_def split: sum.splits option.splits json.splits)

lemma fullPrompt_accepts:
  assumes "fullPrompt ms l = Inr p"
  shows "printed l \<noteq> None \<and> (\<forall>m\<in>set (butlast ms). printed m \<noteq> None)"
proof -
  have "\<forall>m\<in>set (butlast ms). printed m \<noteq> None"
  proof (rule ccontr)
    assume "\<not> (\<forall>m\<in>set (butlast ms). printed m \<noteq> None)"
    then obtain e where "transcriptLines (butlast ms) = Inl e"
      using transcriptLines_throws [of "butlast ms"] by auto
    with assms show False
      by (simp add: fullPrompt_def conversationContext_def)
  qed
  moreover have "printed l \<noteq> None"
    using assms
    by (auto simp: fullPrompt_def printed_def split: sum.splits)
  ultimately show ?thesis by simp
qed

lemma prepare_accepts:
  assumes "prepare (Some body) = Inr args"
  shows "\<exists>ms. property body ''messages'' = Inr (Some (JArr ms)) \<and> JNull \<notin> set ms \<and>
           filter isUser ms \<noteq> [] \<and> hasContent (last (filter isUser ms)) \<and>
           printed (last (filter isUser ms)) \<noteq> None \<and>
           (\<forall>m\<in>set (butlast ms). printed m \<noteq> None)"
proof -
  from assms obtain messages where m: "property body ''messages'' = Inr messages"
    by (cases "property body ''messages''") (simp_all add: prepare_def)
  with assms have arr: "isArray messages"
    by (auto simp: prepare_def split: if_splits)
  define ms where "ms = elements messages"
  from arr have messages: "messages = Some (JArr ms)"
    unfolding ms_def by (rule isArray_elements)
  have nn: "JNull \<notin> set ms"
  proof
    assume "JNull \<in> set ms"
    then obtain e where "userMessages ms = Inl e"
      using userMessages_null by blast
    with assms m messages show False
      by (simp add: prepare_def)
  qed
  then have users: "userMessages ms = Inr (filter isUser ms)"
    by (rule userMessages_filter)
  with assms m messages have ne: "filter isUser ms \<noteq> []"
    by (auto simp: prepare_def split: if_splits)
  from assms m messages users ne
  have "contentLength (last (filter isUser ms)) = Inr ()"
    and "\<exists>p. fullPrompt ms (last (filter isUser ms)) = Inr p"
    by (auto simp: prepare_def Let_def split: sum.splits)
  then have "hasContent (last (filter isUser ms))"
    and "\<exists>p. fullPrompt ms (last (filter isUser ms)) = Inr p"
    by (simp_all add: contentLength_hasContent)
  with fullPrompt_accepts m messages nn ne show ?thesis
    by blast
qed


lemma typed_messages:
  "JNull \<notin> set (map messageInput ms) \<and>
   (\<forall>m\<in>set (map messageInput ms). hasContent m \<and> printed m \<noteq> None) \<and>
   filter isUser (map messageInput ms) = map messageInput (filter (\<lambda>m. fst m = ''user'') ms)"
  by (induction ms) (auto simp: messageInput_def hasContent_def printed_def isUser_def)

text \<open>
  When printing throws: exactly for the values that are not \<open>printable\<close>. So the content
  of a message can be printed unless the message is \<open>null\<close> or its content holds an object
  with a \<open>toString\<close> key.
\<close>

lemma toString_printable:
  "(\<exists>s. toString v = Inr s) \<longleftrightarrow> printable v"
  "(\<exists>s. joinElements vs = Inr s) \<longleftrightarrow> (\<forall>v\<in>set vs. printable v)"
proof (induction v and vs rule: toString_joinElements.induct)
  case (8 v vs)
  show ?case
  proof (cases "v = JNull")
    case True
    with 8 show ?thesis
      by (cases "joinElements vs") auto
  next
    case False
    with 8 show ?thesis
      by (cases "toString v"; cases "joinElements vs") auto
  qed
qed simp_all

lemma printed_printable:
  "printed m \<noteq> None \<longleftrightarrow>
     m \<noteq> JNull \<and> (case property m ''content'' of Inr (Some c) \<Rightarrow> printable c | _ \<Rightarrow> True)"
proof (cases m)
  case JNull
  then show ?thesis by (simp add: printed_def)
next
  case (JObj kvs)
  show ?thesis
  proof (cases "map_of (rev kvs) ''content''")
    case None
    with JObj show ?thesis by (simp add: printed_def)
  next
    case (Some c)
    with JObj toString_printable(1) [of c] show ?thesis
      by (cases "toString c") (auto simp: printed_def)
  qed
qed (simp_all add: printed_def)

text \<open>
  The claim as stated fails for a message of role \<open>user\<close> without a content: reading
  the length of the missing content throws, and the request is answered with status 500
  before the runtime is called.
\<close>

theorem missing_content_counterexample:
  "POST (\<lambda>args. []) (Some (JObj [(''messages'', JArr [JObj [(''role'', JStr ''user'')]])])) =
     JsonResponse 500
       (JObj [(''error'', JStr ''Failed to process chat request. Check server logs for details.'')])"
  by (simp add: POST_def prepare_def serverError_def contentLength_def)

theorem prompt_construction_witness:
  "property (JObj [(''messages'', JArr
       [JObj [(''content'', JStr ''hello''), (''role'', JStr ''user''), (''id'', JNum ''7'')],
        JObj [(''role'', JStr ''assistant''), (''content'', JNum ''42'')],
        messageInput (''user'', ''bye'')])]) ''messages'' =
     Inr (Some (JArr
       [JObj [(''content'', JStr ''hello''), (''role'', JStr ''user''), (''id'', JNum ''7'')],
        JObj [(''role'', JStr ''assistant''), (''content'', JNum ''42'')],
        messageInput (''user'', ''bye'')])) \<and>
   JNull \<notin> set
       [JObj [(''content'', JStr ''hello''), (''role'', JStr ''user''), (''id'', JNum ''7'')],
        JObj [(''role'', JStr ''assistant''), (''content'', JNum ''42'')],
        messageInput (''user'', ''bye'')] \<and>
   filter isUser
       [JObj [(''content'', JStr ''hello''), (''role'', JStr ''user''), (''id'', JNum ''7'')],
        JObj [(''role'', JStr ''assistant''), (''content'', JNum ''42'')],
        messageInput (''user'', ''bye'')] =
     [JObj [(''content'', JStr ''hello''), (''role'', JStr ''user''), (''id'', JNum ''7'')],
      messageInput (''user'', ''bye'')] \<and>
   hasContent (messageInput (''user'', ''bye'')) \<and>
   printed (messageInput (''user'', ''bye'')) = Some ''bye'' \<and>
   printed (JObj [(''content'', JStr ''hello''), (''role'', JStr ''user''), (''id'', JNum ''7'')]) =
     Some ''hello'' \<and>
   printed (JObj [(''role'', JStr ''assistant''), (''content'', JNum ''42'')]) = Some ''42'' \<and>
   prepare (Some (JObj [(''messages'', JArr
       [JObj [(''content'', JStr ''hello''), (''role'', JStr ''user''), (''id'', JNum ''7'')],
        JObj [(''role'', JStr ''assistant''), (''content'', JNum ''42'')],
        messageInput (''user'', ''bye'')])])) =
     Inr (queryArguments (SYSTEM_PROMPT @
       ''\<newline>\<newline>Previous conversation:\<newline>User: hello\<newline>\<newline>Assistant: 42\<newline>\<newline>User: bye''))"
proof -
  let ?m1 = "JObj [(''content'', JStr ''hello''), (''role'', JStr ''user''), (''id'', JNum ''7'')]"
  let ?m2 = "JObj [(''role'', JStr ''assistant''), (''content'', JNum ''42'')]"
  let ?m3 = "messageInput (''user'', ''bye'')"
  let ?ms = "[?m1, ?m2, ?m3]"
  let ?body = "JObj [(''messages'', JArr ?ms)]"
  have h1: "property ?body ''messages'' = Inr (Some (JArr ?ms))"
    by simp
  have h2: "JNull \<notin> set ?ms"
    by (simp add: messageInput_def)
  have users: "filter isUser ?ms = [?m1, ?m3]"
    by (simp add: isUser_def messageInput_def)
  then have h3: "filter isUser ?ms \<noteq> []" and last: "last (filter isUser ?ms) = ?m3"
    by simp_all
  have p: "printed ?m1 = Some ''hello''" "printed ?m2 = Some ''42''" "printed ?m3 = Some ''bye''"
    by (simp_all add: printed_def messageInput_def)
  have c: "hasContent ?m3"
    by (simp add: hasContent_def messageInput_def)
  have h4: "hasContent (last (filter isUser ?ms))"
    unfolding last by (rule c)
  have h5: "printed (last (filter isUser ?ms)) = Some ''bye''"
    unfolding last by (rule p(3))
  have h6: "\<forall>m\<in>set (butlast ?ms). printed m \<noteq> None"
    using p(1,2) by simp
  have t: "transcript (butlast ?ms) = ''User: hello\<newline>\<newline>Assistant: 42''"
    using p(1,2) by (simp add: transcript_def entry_def isUser_def)
  from prompt_construction [OF h1 h2 h3 h4 h5 h6, of "[]" "\<lambda>args. []"]
  have "prepare (Some ?body) =
     Inr (queryArguments (SYSTEM_PROMPT @
       ''\<newline>\<newline>Previous conversation:\<newline>User: hello\<newline>\<newline>Assistant: 42\<newline>\<newline>User: bye''))"
    unfolding t by simp
  with h1 h2 users c p show ?thesis
    by (simp only: simp_thms)
qed


end
